theory Spec2Isabelle
  imports Main "HOL-Library.AList"
begin

section \<open>gservice.core: the data model\<close>

text \<open>
  The development embeds \<^verbatim>\<open>src/gservice/core.py\<close>. A service is an object with
  mutable fields and a list of children; the embedding is a tree whose operations return
  the updated tree, the trace of effectful statements executed, and the fault raised (if
  any). A child has one parent (the tree has no sharing), and user code (the overridable
  hooks, the error handlers, the spawned functions) is described by what it does when
  called: return or raise.
\<close>

subsection \<open>Python values and faults\<close>

type_synonym kind = string

text \<open>
  A raised exception object, given by the method resolution order of its class: the class
  first, then its base classes. \<^verbatim>\<open>isinstance(exception, type)\<close> is membership in it.
\<close>

datatype fault = Fault (mro: "kind list")

definition isinstance :: "fault \<Rightarrow> kind \<Rightarrow> bool" where
  "isinstance e t = (t \<in> set (mro e))"

definition RuntimeWarning :: fault where
  "RuntimeWarning = Fault [''RuntimeWarning'', ''Warning'', ''Exception'', ''BaseException'']"

definition AttributeError :: fault where
  "AttributeError = Fault [''AttributeError'', ''StandardError'', ''Exception'', ''BaseException'']"

datatype pyval = PyNone | PyBool bool | PyInt int | PyStr string | PyFault fault

text \<open>Python's \<^verbatim>\<open>==\<close> on these values: \<^verbatim>\<open>bool\<close> is a subclass of \<^verbatim>\<open>int\<close>.\<close>

fun py_eq :: "pyval \<Rightarrow> pyval \<Rightarrow> bool" where
  "py_eq (PyBool a) (PyInt i) = ((if a then 1 else 0) = i)"
| "py_eq (PyInt i) (PyBool a) = (i = (if a then 1 else 0))"
| "py_eq v w = (v = w)"

definition NOT_READY :: pyval where
  "NOT_READY = PyInt 1"

subsection \<open>User code\<close>

text \<open>An error handler: a callable taking the exception and the registering greenlet.\<close>

record handler =
  hname :: string
  hraises :: "fault option"

text \<open>
  The fault-handler table \<^verbatim>\<open>_error_handlers\<close>: a dict from exception type to
  \<^verbatim>\<open>(handler, greenlet)\<close>. It is an association list in the dict's iteration order;
  assigning to a key that is present replaces its value in place.
\<close>

type_synonym table = "(kind \<times> handler \<times> nat) list"

text \<open>
  A function given to \<^verbatim>\<open>spawn\<close>: the \<^verbatim>\<open>catch\<close> calls on the owning service that
  happen while it runs, then its return value or the fault it raises.
\<close>

record func =
  fname :: string
  registers :: "(kind \<times> handler) list"
  outcome :: "fault + pyval"

text \<open>
  A greenlet of the service's group: its identity, the delay before it starts
  (\<^verbatim>\<open>spawn_later\<close>), the time it still needs to finish, whether \<^verbatim>\<open>kill\<close> terminates it
  within the grace period, and the wrapped function it runs.
\<close>

record task =
  tid :: nat
  delay :: nat
  remaining :: nat
  killable :: bool
  tfunc :: func

text \<open>The overridable methods; \<^verbatim>\<open>None\<close> is a normal return, \<^verbatim>\<open>Inl\<close> a raise.\<close>

record hooks =
  pre_start :: "fault option"
  do_start :: "fault + pyval"
  post_start :: "fault option"
  pre_stop :: "fault option"
  do_stop :: "fault option"
  post_stop :: "fault option"

record sdata =
  name :: string
  started :: bool
  ready_event :: bool
  stopped_event :: bool
  greenlets :: "task list"
  error_handlers :: table
  stop_timeout :: nat
  ready_timeout :: nat
  hooks :: hooks
  ready_after :: "nat option"

text \<open>
  \<^verbatim>\<open>ready_after\<close> belongs to the environment: the time after \<^verbatim>\<open>do_start\<close> at which a
  task it spawned calls \<^verbatim>\<open>set_ready\<close> (\<^verbatim>\<open>None\<close>: never).

  A child is a \<^verbatim>\<open>Service\<close> or a raw \<^verbatim>\<open>gevent.baseserver.BaseServer\<close>; of the latter
  the code uses \<^verbatim>\<open>started\<close>, \<^verbatim>\<open>start()\<close> and \<^verbatim>\<open>stop()\<close>, modelled by its name, its
  flag and the faults its \<^verbatim>\<open>start\<close> and \<^verbatim>\<open>stop\<close> raise.
\<close>

datatype service =
    Service sdata "service list"
  | BaseServer string bool "fault option" "fault option"

fun is_started :: "service \<Rightarrow> bool" where
  "is_started (Service d cs) = started d"
| "is_started (BaseServer n st sf pf) = st"

fun sname :: "service \<Rightarrow> string" where
  "sname (Service d cs) = name d"
| "sname (BaseServer n st sf pf) = n"

fun children :: "service \<Rightarrow> service list" where
  "children (Service d cs) = cs"
| "children (BaseServer n st sf pf) = []"

subsection \<open>The trace\<close>

datatype event =
    Hook string string
  | ChildStart string string bool
  | ChildStop string string
  | ForeignStart string
  | ForeignStop string
  | StartedSet string bool
  | ReadyClear string
  | ReadySet string
  | StoppedClear string
  | StoppedSet string
  | Wait string nat
  | Join string nat nat
  | Kill string nat nat
  | SpawnStop string
  | Run string
  | Invoke string fault nat

type_synonym 'a result = "'a \<times> event list \<times> fault option"

section \<open>The task group\<close>

text \<open>
  Time is counted in the unit of the timeouts. A task of the group finishes \<^verbatim>\<open>delay\<close> plus
  \<^verbatim>\<open>remaining\<close> units from now and then leaves the group.

  \<^verbatim>\<open>Group.join(timeout)\<close> waits for the tasks: \<^verbatim>\<open>join_group t g\<close> is the group it leaves
  (the tasks that finish within the timeout are gone, the others are \<^verbatim>\<open>t\<close> units further),
  \<^verbatim>\<open>join_took t g\<close> the time it blocked: until the last task finished, at most \<^verbatim>\<open>t\<close>.
  \<^verbatim>\<open>Group.kill(block=True, timeout=1)\<close> kills what is left: a killable task is gone at once,
  any other runs on, and the call blocks until these have finished, at most for the grace
  period. \<^verbatim>\<open>advance dt g\<close> is the group after the caller was blocked elsewhere for \<^verbatim>\<open>dt\<close>
  units; with no time spent, no other greenlet ran and the group is as it was.
\<close>

definition finish_time :: "task \<Rightarrow> nat" where
  "finish_time x = delay x + remaining x"

definition join_group :: "nat \<Rightarrow> task list \<Rightarrow> task list" where
  "join_group t g =
     map (\<lambda>x. x\<lparr>delay := delay x - t, remaining := remaining x - (t - delay x)\<rparr>)
       (filter (\<lambda>x. t < finish_time x) g)"

definition join_took :: "nat \<Rightarrow> task list \<Rightarrow> nat" where
  "join_took t g = min t (foldr max (map finish_time g) 0)"

definition kill_group :: "task list \<Rightarrow> task list" where
  "kill_group g = join_group 1 (filter (\<lambda>x. \<not> killable x) g)"

definition kill_took :: "task list \<Rightarrow> nat" where
  "kill_took g = join_took 1 (filter (\<lambda>x. \<not> killable x) g)"

definition advance :: "nat \<Rightarrow> task list \<Rightarrow> task list" where
  "advance dt g = (if dt = 0 then g else join_group dt g)"

definition in_group :: "nat \<Rightarrow> sdata \<Rightarrow> bool" where
  "in_group cur d = (cur \<in> set (map tid (greenlets d)))"

text \<open>
  The events \<^verbatim>\<open>Join n t dt\<close> and \<^verbatim>\<open>Kill n t dt\<close> record the timeout \<^verbatim>\<open>t\<close> of the call and
  the time \<^verbatim>\<open>dt\<close> it blocked; \<^verbatim>\<open>took\<close> is the time a trace of \<^verbatim>\<open>stop\<close> blocked in all
  (the hooks themselves are taken to return at once). While a call blocks, the tasks of
  every service of the tree run on: \<^verbatim>\<open>elapse dt s\<close> is the tree \<^verbatim>\<open>dt\<close> units later.
\<close>

fun took :: "event list \<Rightarrow> nat" where
  "took [] = 0"
| "took (Join n t dt # tr) = dt + took tr"
| "took (Kill n t dt # tr) = dt + took tr"
| "took (x # tr) = took tr"

fun elapse :: "nat \<Rightarrow> service \<Rightarrow> service" where
  "elapse dt (Service d cs) =
     Service (d\<lparr>greenlets := advance dt (greenlets d)\<rparr>) (map (elapse dt) cs)"
| "elapse dt (BaseServer n st sf pf) = BaseServer n st sf pf"

section \<open>Service.stop\<close>

text \<open>
  The \<^verbatim>\<open>finally\<close> block of \<^verbatim>\<open>stop\<close> (lines 231-238), on the service as it is when the
  block is entered.
\<close>

definition stop_cleanup :: "nat option \<Rightarrow> sdata \<Rightarrow> sdata result" where
  "stop_cleanup timeout d =
     (let t = (case timeout of None \<Rightarrow> stop_timeout d | Some t \<Rightarrow> t);
          g = greenlets d;
          n = name d
      in (d\<lparr>greenlets := (if g \<noteq> [] then kill_group (join_group t g) else g),
              ready_event := False, stopped_event := True\<rparr>,
          (if g \<noteq> [] then [Join n t (join_took t g), Kill n 1 (kill_took (join_group t g))]
           else [])
            @ [ReadyClear n, StoppedSet n, Hook n ''post_stop''],
          post_stop (hooks d)))"

text \<open>
  \<^verbatim>\<open>stop cur timeout s\<close>: \<^verbatim>\<open>cur\<close> is \<^verbatim>\<open>gevent.getcurrent()\<close>, the greenlet that makes
  the call. \<^verbatim>\<open>stop_children\<close> is the loop of lines 224-228 over the list it is given;
  \<^verbatim>\<open>stop\<close> gives it the reversed children and reverses the result back. The \<^verbatim>\<open>stop\<close> of a
  child blocks in its join and kill; meanwhile the tasks of the other children and of the
  parent run on, so the \<^verbatim>\<open>finally\<close> block of the parent meets the group as it is after
  the time the \<^verbatim>\<open>try\<close> block took, and a child is stopped as it is after the time the
  children before it took.
\<close>

function stop :: "nat \<Rightarrow> nat option \<Rightarrow> service \<Rightarrow> service result"
  and stop_children :: "nat \<Rightarrow> string \<Rightarrow> service list \<Rightarrow> (service list) result" where
  "stop cur timeout (BaseServer n st sf pf) = (BaseServer n False sf pf, [ForeignStop n], pf)"
| "stop cur timeout (Service d cs) =
     (if in_group cur d then (Service d cs, [SpawnStop (name d)], None)
      else
        (let n = name d;
             d1 = d\<lparr>started := False\<rparr>;
             body =
               (case pre_stop (hooks d) of
                  Some e \<Rightarrow> (cs, [Hook n ''pre_stop''], Some e)
                | None \<Rightarrow>
                   (case stop_children cur n (rev cs) of
                      (rcs, trc, Some e) \<Rightarrow> (rev rcs, Hook n ''pre_stop'' # trc, Some e)
                    | (rcs, trc, None) \<Rightarrow>
                        (rev rcs, Hook n ''pre_stop'' # trc @ [Hook n ''do_stop''],
                         do_stop (hooks d))));
             d2 = d1\<lparr>greenlets := advance (took (fst (snd body))) (greenlets d1)\<rparr>;
             fin = stop_cleanup timeout d2
         in (Service (fst fin) (map (elapse (took (fst (snd fin)))) (fst body)),
             StartedSet n False # fst (snd body) @ fst (snd fin),
             (case snd (snd fin) of Some e \<Rightarrow> Some e | None \<Rightarrow> snd (snd body)))))"
| "stop_children cur p [] = ([], [], None)"
| "stop_children cur p (c # cs) =
     (if is_started c then
        (case stop cur None c of
           (c', tr, Some e) \<Rightarrow>
             (c' # map (elapse (took tr)) cs, ChildStop p (sname c) # tr, Some e)
         | (c', tr, None) \<Rightarrow>
             (case stop_children cur p (map (elapse (took tr)) cs) of
                (cs', tr', r) \<Rightarrow>
                  (elapse (took tr') c' # cs', ChildStop p (sname c) # tr @ tr', r)))
      else
        (case stop_children cur p cs of (cs', tr', r) \<Rightarrow> (elapse (took tr') c # cs', tr', r)))"
  by pat_completeness auto

termination
proof -
  have e: "size (elapse dt s) = size s" for dt s
  proof (induction s)
    case (Service d cs)
    then have "map (size \<circ> elapse dt) cs = map size cs" by simp
    from arg_cong [OF this, of sum_list] show ?case by (simp add: size_list_conv_sum_list)
  qed simp
  then have m: "map (size \<circ> elapse dt) cs = map size cs" for dt cs by simp
  show ?thesis
    by (relation "measure (\<lambda>x. case x of Inl (cur, t, s) \<Rightarrow> 2 * size s
                                   | Inr (cur, p, cs) \<Rightarrow> 2 * size_list size cs + 1)")
       (auto simp: size_list_conv_sum_list rev_map[symmetric] m)
qed

section \<open>Service.start\<close>

text \<open>
  Lines 188-191: what \<^verbatim>\<open>start\<close> does with the value \<^verbatim>\<open>do_start\<close> returned. The wait
  returns when the event is set or the timeout has passed; the event is set during the
  wait when the environment calls \<^verbatim>\<open>set_ready\<close> in time.
\<close>

definition readiness :: "bool \<Rightarrow> pyval \<Rightarrow> sdata \<Rightarrow> sdata \<times> event list" where
  "readiness block_until_ready ready d =
     (if py_eq ready NOT_READY \<and> block_until_ready = True then
        (d\<lparr>ready_event := (ready_event d \<or>
              (case ready_after d of None \<Rightarrow> False | Some t \<Rightarrow> t \<le> ready_timeout d))\<rparr>,
         [Wait (name d) (ready_timeout d)])
      else if \<not> py_eq ready NOT_READY then
        (d\<lparr>ready_event := True\<rparr>, [ReadySet (name d)])
      else (d, []))"

text \<open>
  The handler of lines 194-196, entered with the fault \<^verbatim>\<open>e\<close> and the trace so far:
  \<^verbatim>\<open>self.stop()\<close>, then \<^verbatim>\<open>raise\<close>. A fault raised by \<^verbatim>\<open>stop\<close> itself leaves the
  handler instead of \<^verbatim>\<open>e\<close>.
\<close>

definition abort :: "nat \<Rightarrow> service \<Rightarrow> event list \<Rightarrow> fault \<Rightarrow> service result" where
  "abort cur s tr e =
     (case stop cur None s of
        (s', tr', r) \<Rightarrow> (s', tr @ tr', Some (case r of Some e' \<Rightarrow> e' | None \<Rightarrow> e)))"

text \<open>
  \<^verbatim>\<open>start cur block_until_ready s\<close>; on a \<^verbatim>\<open>BaseServer\<close> it is the server's own
  \<^verbatim>\<open>start()\<close>. \<^verbatim>\<open>start_children\<close> is the loop of lines 180-186.
\<close>

fun start :: "nat \<Rightarrow> bool \<Rightarrow> service \<Rightarrow> service result"
  and start_children :: "nat \<Rightarrow> bool \<Rightarrow> string \<Rightarrow> service list \<Rightarrow> (service list) result" where
  "start cur b (BaseServer n st sf pf) =
     (case sf of
        Some e \<Rightarrow> (BaseServer n st sf pf, [ForeignStart n], Some e)
      | None \<Rightarrow> (BaseServer n True sf pf, [ForeignStart n], None))"
| "start cur b (Service d cs) =
     (if started d then (Service d cs, [], Some RuntimeWarning)
      else
        (let n = name d;
             d1 = d\<lparr>stopped_event := False, ready_event := False\<rparr>;
             tr0 = [StoppedClear n, ReadyClear n, Hook n ''pre_start'']
         in case pre_start (hooks d) of
              Some e \<Rightarrow> abort cur (Service d1 cs) tr0 e
            | None \<Rightarrow>
               (case start_children cur b n cs of
                  (cs1, trc, Some e) \<Rightarrow> abort cur (Service d1 cs1) (tr0 @ trc) e
                | (cs1, trc, None) \<Rightarrow>
                   (case do_start (hooks d) of
                      Inl e \<Rightarrow>
                        abort cur (Service d1 cs1) (tr0 @ trc @ [Hook n ''do_start'']) e
                    | Inr ready \<Rightarrow>
                       (let rd = readiness b ready d1;
                            d3 = (fst rd)\<lparr>started := True\<rparr>;
                            tr3 = tr0 @ trc @ [Hook n ''do_start''] @ snd rd
                                    @ [StartedSet n True, Hook n ''post_start'']
                        in case post_start (hooks d) of
                             Some e \<Rightarrow> abort cur (Service d3 cs1) tr3 e
                           | None \<Rightarrow> (Service d3 cs1, tr3, None))))))"
| "start_children cur b p [] = ([], [], None)"
| "start_children cur b p (c # cs) =
     (if \<not> is_started c then
        (case start cur b c of
           (c', tr, Some e) \<Rightarrow> (c' # cs, ChildStart p (sname c) b # tr, Some e)
         | (c', tr, None) \<Rightarrow>
             (case start_children cur b p cs of
                (cs', tr', r) \<Rightarrow> (c' # cs', ChildStart p (sname c) b # tr @ tr', r)))
      else
        (case start_children cur b p cs of (cs', tr', r) \<Rightarrow> (c # cs', tr', r)))"

text \<open>The property \<^verbatim>\<open>ready\<close> (lines 101-104) and \<^verbatim>\<open>set_ready\<close> (lines 106-108).\<close>

fun ready :: "service \<Rightarrow> bool" where
  "ready (Service d cs) = ready_event d"
| "ready (BaseServer n st sf pf) = False"

fun set_ready :: "service \<Rightarrow> service" where
  "set_ready (Service d cs) = Service (d\<lparr>ready_event := True\<rparr>) cs"
| "set_ready s = s"

section \<open>Service.catch\<close>

text \<open>
  Lines 147-155: the entry \<^verbatim>\<open>(handler, gevent.getcurrent())\<close> is stored under the type,
  then \<^verbatim>\<open>catch\<close> is called on every child. A \<^verbatim>\<open>BaseServer\<close> has no \<^verbatim>\<open>catch\<close>.
\<close>

fun catch :: "nat \<Rightarrow> kind \<Rightarrow> handler \<Rightarrow> service \<Rightarrow> service \<times> fault option"
  and catch_children :: "nat \<Rightarrow> kind \<Rightarrow> handler \<Rightarrow> service list \<Rightarrow> service list \<times> fault option" where
  "catch cur k h (BaseServer n st sf pf) = (BaseServer n st sf pf, Some AttributeError)"
| "catch cur k h (Service d cs) =
     (case catch_children cur k h cs of
        (cs', r) \<Rightarrow>
          (Service (d\<lparr>error_handlers := AList.update k (h, cur) (error_handlers d)\<rparr>) cs', r))"
| "catch_children cur k h [] = ([], None)"
| "catch_children cur k h (c # cs) =
     (case catch cur k h c of
        (c', Some e) \<Rightarrow> (c' # cs, Some e)
      | (c', None) \<Rightarrow> (case catch_children cur k h cs of (cs', r) \<Rightarrow> (c' # cs', r)))"

fun handlers_of :: "service \<Rightarrow> table" where
  "handlers_of (Service d cs) = error_handlers d"
| "handlers_of (BaseServer n st sf pf) = []"

section \<open>Service._wrap_errors\<close>

text \<open>
  \<^verbatim>\<open>handle_all n tbl rest e\<close> is the loop of lines 140-143 over the entries \<^verbatim>\<open>rest\<close> of
  the table \<^verbatim>\<open>tbl\<close>, and \<^verbatim>\<open>call_handler\<close> the call
  \<^verbatim>\<open>self._wrap_errors(handler)(exception, greenlet)\<close> of line 143: the wrapped function
  of lines 135-144 around a handler. A handler that raises a fault which is handled by a
  handler that raises again may recurse without end; \<^verbatim>\<open>n\<close> bounds the nesting of
  wrapped handler calls, and \<^verbatim>\<open>None\<close> says that the bound was reached.
\<close>

fun handle_all :: "nat \<Rightarrow> table \<Rightarrow> table \<Rightarrow> fault \<Rightarrow> (event list \<times> fault option) option"
  and call_handler :: "nat \<Rightarrow> table \<Rightarrow> handler \<Rightarrow> fault \<Rightarrow> nat \<Rightarrow> (event list \<times> (fault + pyval)) option" where
  "handle_all n tbl [] e = Some ([], None)"
| "handle_all n tbl ((k, h, g) # rest) e =
     (if isinstance e k then
        (case call_handler n tbl h e g of
           None \<Rightarrow> None
         | Some (tr, Inl e') \<Rightarrow> Some (tr, Some e')
         | Some (tr, Inr v) \<Rightarrow>
            (case handle_all n tbl rest e of
               None \<Rightarrow> None
             | Some (tr', r) \<Rightarrow> Some (tr @ tr', r)))
      else handle_all n tbl rest e)"
| "call_handler 0 tbl h e g = None"
| "call_handler (Suc n) tbl h e g =
     (case hraises h of
        None \<Rightarrow> Some ([Invoke (hname h) e g], Inr PyNone)
      | Some exception \<Rightarrow>
         (if list_ex (isinstance exception) (map fst tbl) then
            (case handle_all n tbl tbl exception of
               None \<Rightarrow> None
             | Some (tr, Some e') \<Rightarrow> Some (Invoke (hname h) e g # tr, Inl e')
             | Some (tr, None) \<Rightarrow> Some (Invoke (hname h) e g # tr, Inr (PyFault exception)))
          else Some ([Invoke (hname h) e g], Inl exception)))"

text \<open>
  The function of a task runs: the \<^verbatim>\<open>catch\<close> calls made on the service meanwhile, in
  order, then its outcome. A \<^verbatim>\<open>catch\<close> that raises ends the function with that fault.
\<close>

fun run_func :: "nat \<Rightarrow> (kind \<times> handler) list \<Rightarrow> fault + pyval \<Rightarrow> service
                   \<Rightarrow> service \<times> (fault + pyval)" where
  "run_func cur [] out s = (s, out)"
| "run_func cur ((k, h) # rs) out s =
     (case catch cur k h s of
        (s', Some e) \<Rightarrow> (s', Inl e)
      | (s', None) \<Rightarrow> run_func cur rs out s')"

text \<open>
  \<^verbatim>\<open>wrapped_f\<close> (lines 135-144) for the function \<^verbatim>\<open>f\<close>, called in greenlet \<^verbatim>\<open>cur\<close>:
  the tuple \<^verbatim>\<open>exceptions\<close> is built from the table before \<^verbatim>\<open>f\<close> runs, the loop reads
  the table as it is when the fault is caught.
\<close>

definition wrapped_f :: "nat \<Rightarrow> nat \<Rightarrow> func \<Rightarrow> service
                          \<Rightarrow> (service \<times> event list \<times> (fault + pyval)) option" where
  "wrapped_f n cur f s =
     (let exceptions = map fst (handlers_of s);
          ran = run_func cur (registers f) (outcome f) s;
          s' = fst ran
      in case snd ran of
           Inr v \<Rightarrow> Some (s', [Run (fname f)], Inr v)
         | Inl exception \<Rightarrow>
            (if list_ex (isinstance exception) exceptions then
               (case handle_all n (handlers_of s') (handlers_of s') exception of
                  None \<Rightarrow> None
                | Some (tr, Some e') \<Rightarrow> Some (s', Run (fname f) # tr, Inl e')
                | Some (tr, None) \<Rightarrow> Some (s', Run (fname f) # tr, Inr (PyFault exception)))
             else Some (s', [Run (fname f)], Inl exception)))"

section \<open>Service.spawn, Service.spawn_later\<close>

text \<open>
  Lines 157-169: the greenlet \<^verbatim>\<open>t\<close> joins the group; \<^verbatim>\<open>_wrap_errors(func)\<close> builds a
  closure over the service and the function and reads nothing of the table. When the
  scheduler runs the greenlet, it calls the wrapped function; a finished greenlet leaves
  the group.
\<close>

fun spawn :: "task \<Rightarrow> service \<Rightarrow> service" where
  "spawn t (Service d cs) = Service (d\<lparr>greenlets := greenlets d @ [t\<lparr>delay := 0\<rparr>]\<rparr>) cs"
| "spawn t s = s"

fun spawn_later :: "nat \<Rightarrow> task \<Rightarrow> service \<Rightarrow> service" where
  "spawn_later seconds t (Service d cs) =
     Service (d\<lparr>greenlets := greenlets d @ [t\<lparr>delay := seconds\<rparr>]\<rparr>) cs"
| "spawn_later seconds t s = s"

fun discard :: "nat \<Rightarrow> service \<Rightarrow> service" where
  "discard g (Service d cs) = Service (d\<lparr>greenlets := filter (\<lambda>x. tid x \<noteq> g) (greenlets d)\<rparr>) cs"
| "discard g s = s"

definition run_task :: "nat \<Rightarrow> task \<Rightarrow> service
                         \<Rightarrow> (service \<times> event list \<times> (fault + pyval)) option" where
  "run_task n t s =
     (case wrapped_f n (tid t) (tfunc t) s of
        None \<Rightarrow> None
      | Some (s', tr, r) \<Rightarrow> Some (discard (tid t) s', tr, r))"

section \<open>Service.serve_forever\<close>

text \<open>
  Line 219: is the caller one of the service's own greenlets? Then \<^verbatim>\<open>stop\<close> only spawns
  a greenlet that will run \<^verbatim>\<open>self.stop()\<close>. That greenlet is new, so it belongs to no
  group of the tree; \<^verbatim>\<open>outsider\<close> is such a greenlet.
\<close>

fun defers :: "nat \<Rightarrow> service \<Rightarrow> bool" where
  "defers cur (Service d cs) = in_group cur d"
| "defers cur (BaseServer n st sf pf) = False"

fun tids :: "service \<Rightarrow> nat list" where
  "tids (Service d cs) = map tid (greenlets d) @ concat (map tids cs)"
| "tids (BaseServer n st sf pf) = []"

definition outsider :: "service \<Rightarrow> nat" where
  "outsider s = Suc (foldr max (tids s) 0)"

text \<open>
  Lines 259-269. What happens while the caller waits on \<^verbatim>\<open>_stopped_event\<close> is the
  environment's choice: the wait is interrupted by a fault, another greenlet calls
  \<^verbatim>\<open>stop\<close>, or nothing happens and the caller stays blocked. When the greenlet that calls
  \<^verbatim>\<open>stop\<close> is one of the service's own, the \<^verbatim>\<open>stop\<close> it spawned runs while the caller
  still waits.
\<close>

datatype wait_env = Interrupted fault | ExternalStop nat "nat option" | Nothing

datatype served = Returned | Raised fault | Blocked

fun stopped :: "service \<Rightarrow> bool" where
  "stopped (Service d cs) = stopped_event d"
| "stopped (BaseServer n st sf pf) = (\<not> st)"

definition serve_forever :: "nat \<Rightarrow> nat option \<Rightarrow> fault option option \<Rightarrow> wait_env \<Rightarrow> service
                              \<Rightarrow> service \<times> event list \<times> served" where
  "serve_forever cur timeout ready_callback env s =
     (let begun =
            (if \<not> is_started s then
               (case start cur True s of
                  (s1, tr1, Some e) \<Rightarrow> (s1, tr1, Some e)
                | (s1, tr1, None) \<Rightarrow>
                    (s1, tr1, (case ready_callback of Some (Some e) \<Rightarrow> Some e | _ \<Rightarrow> None)))
             else (s, [], None));
          s1 = fst begun;
          tr1 = fst (snd begun)
      in case snd (snd begun) of
           Some e \<Rightarrow> (s1, tr1, Raised e)
         | None \<Rightarrow>
            (if stopped s1 then (s1, tr1, Returned)
             else
               (case env of
                  Nothing \<Rightarrow> (s1, tr1, Blocked)
                | Interrupted e \<Rightarrow>
                    (case stop cur timeout s1 of
                       (s2, tr2, r2) \<Rightarrow>
                         (s2, tr1 @ tr2, Raised (case r2 of Some e' \<Rightarrow> e' | None \<Rightarrow> e)))
                | ExternalStop c t \<Rightarrow>
                    (case stop c t s1 of
                       (s2, tr2, r2) \<Rightarrow>
                         (if defers c s1 then
                            (case stop (outsider s2) None s2 of
                               (s3, tr3, r3) \<Rightarrow>
                                 (s3, tr1 @ tr2 @ tr3,
                                  if stopped s3 then Returned else Blocked))
                          else (s2, tr1 @ tr2, if stopped s2 then Returned else Blocked))))))"

section \<open>Sequences of lifecycle operations\<close>

datatype op =
    OpStart nat bool
  | OpStop nat "nat option"
  | OpSetReady
  | OpServe nat "nat option" "fault option option" wait_env

fun apply_op :: "op \<Rightarrow> service \<Rightarrow> service" where
  "apply_op (OpStart cur b) s = fst (start cur b s)"
| "apply_op (OpStop cur t) s = fst (stop cur t s)"
| "apply_op OpSetReady s = set_ready s"
| "apply_op (OpServe cur t cb env) s = fst (serve_forever cur t cb env s)"

text \<open>The states at the operation boundaries, the first one included.\<close>

fun run_ops :: "service \<Rightarrow> op list \<Rightarrow> service list" where
  "run_ops s [] = [s]"
| "run_ops s (x # xs) = s # run_ops (apply_op x s) xs"

text \<open>Every \<^verbatim>\<open>set_ready\<close> of the sequence is called on a started service.\<close>

fun ready_when_started :: "service \<Rightarrow> op list \<Rightarrow> bool" where
  "ready_when_started s [] = True"
| "ready_when_started s (x # xs) =
     ((x \<noteq> OpSetReady \<or> is_started s) \<and> ready_when_started (apply_op x s) xs)"

text \<open>The readiness gate of a node of the tree is false when its flag is false.\<close>

fun gate_closed :: "service \<Rightarrow> bool" where
  "gate_closed (Service d cs) = ((started d \<or> \<not> ready_event d) \<and> list_all gate_closed cs)"
| "gate_closed (BaseServer n st sf pf) = True"

text \<open>A service as the class attributes of lines 62-70 give it, with the given hooks.\<close>

definition default_hooks :: hooks where
  "default_hooks = \<lparr>pre_start = None, do_start = Inr PyNone, post_start = None,
                    pre_stop = None, do_stop = None, post_stop = None\<rparr>"

definition new_service :: "string \<Rightarrow> hooks \<Rightarrow> sdata" where
  "new_service n hs = \<lparr>name = n, started = False, ready_event = False, stopped_event = False,
                       greenlets = [], error_handlers = [], stop_timeout = 1, ready_timeout = 2,
                       hooks = hs, ready_after = None\<rparr>"

section \<open>The start order, as the specification words it\<close>

text \<open>
  What the specification says about one child during \<^verbatim>\<open>start\<close>: a child that is not
  started is started with the same flag (a \<^verbatim>\<open>BaseServer\<close> directly), a started one is
  left alone. \<^verbatim>\<open>child_start_trace\<close> is what this adds to the trace, \<^verbatim>\<open>child_started\<close> the
  child afterwards.
\<close>

definition child_start_trace :: "nat \<Rightarrow> bool \<Rightarrow> string \<Rightarrow> service \<Rightarrow> event list" where
  "child_start_trace cur b p c =
     (if is_started c then [] else ChildStart p (sname c) b # fst (snd (start cur b c)))"

definition child_started :: "nat \<Rightarrow> bool \<Rightarrow> service \<Rightarrow> service" where
  "child_started cur b c = (if is_started c then c else fst (start cur b c))"

section \<open>A fault during start, as the specification words it\<close>



section \<open>The interceptor, as the specification words it\<close>

text \<open>
  The handlers a fault triggers: one invocation for every entry of the table whose kind
  the fault is an instance of, in the table's iteration order.
\<close>

definition invocations :: "table \<Rightarrow> fault \<Rightarrow> event list" where
  "invocations tbl e =
     map (\<lambda>(k, h, g). Invoke (hname h) e g) (filter (\<lambda>(k, h, g). isinstance e k) tbl)"

text \<open>The handlers that \<^verbatim>\<open>e\<close> triggers return normally.\<close>

definition calm :: "table \<Rightarrow> fault \<Rightarrow> bool" where
  "calm tbl e = list_all (\<lambda>(k, h, g). isinstance e k \<longrightarrow> hraises h = None) tbl"





section \<open>Example services\<close>

definition E1 :: fault where
  "E1 = Fault [''E1'', ''Exception'', ''BaseException'']"


definition leaf :: "string \<Rightarrow> hooks \<Rightarrow> service" where
  "leaf n hs = Service (new_service n hs) []"

definition running :: "string \<Rightarrow> hooks \<Rightarrow> service" where
  "running n hs = Service ((new_service n hs)\<lparr>started := True, ready_event := True\<rparr>) []"

definition idle_task :: "nat \<Rightarrow> task" where
  "idle_task g = \<lparr>tid = g, delay = 0, remaining = 5, killable = True,
                   tfunc = \<lparr>fname = ''work'', registers = [], outcome = Inr PyNone\<rparr>\<rparr>"

definition busy :: "string \<Rightarrow> hooks \<Rightarrow> nat \<Rightarrow> service" where
  "busy n hs g = Service ((new_service n hs)\<lparr>started := True, ready_event := True,
                                              greenlets := [idle_task g]\<rparr>) []"

definition family :: service where
  "family = Service (new_service ''P'' default_hooks)
              [leaf ''A'' default_hooks, BaseServer ''B'' False None None,
               running ''C'' default_hooks]"


definition session :: "op list" where
  "session = [OpStart 0 True, OpSetReady, OpStop 0 None,
              OpServe 0 None None (Interrupted E1), OpStart 0 False]"

definition ValueErr :: fault where
  "ValueErr = Fault [''ValueError'', ''StandardError'', ''Exception'', ''BaseException'']"


definition quiet :: handler where
  "quiet = \<lparr>hname = ''quiet'', hraises = None\<rparr>"




definition raising :: "fault \<Rightarrow> func" where
  "raising e = \<lparr>fname = ''f'', registers = [], outcome = Inl e\<rparr>"

definition slow_task :: "nat \<Rightarrow> nat \<Rightarrow> bool \<Rightarrow> task" where
  "slow_task g r k = \<lparr>tid = g, delay = 0, remaining = r, killable = k,
                      tfunc = \<lparr>fname = ''work'', registers = [], outcome = Inr PyNone\<rparr>\<rparr>"

definition outlived :: service where
  "outlived = Service ((new_service ''P'' default_hooks)
                         \<lparr>started := True, ready_event := True, greenlets := [slow_task 1 2 True]\<rparr>)
                [Service ((new_service ''C'' default_hooks)
                            \<lparr>started := True, ready_event := True,
                             greenlets := [slow_task 2 5 False]\<rparr>) []]"







definition late :: func where
  "late = \<lparr>fname = ''f'', registers = [(''ValueError'', quiet)], outcome = Inl ValueErr\<rparr>"

definition job :: "nat \<Rightarrow> func \<Rightarrow> task" where
  "job g f = \<lparr>tid = g, delay = 0, remaining = 1, killable = True, tfunc = f\<rparr>"

section \<open>Double start\<close>

text \<open>
  C7. A service whose \<^verbatim>\<open>started\<close> flag is true answers \<^verbatim>\<open>start\<close> with the
  \<^verbatim>\<open>RuntimeWarning\<close> of line 174 and nothing else happens: the service (flag, readiness
  gate, stop signal, children, fault handlers) is returned as it was and the trace is empty.
\<close>

theorem double_start_unaffected:
  "started d \<Longrightarrow> start cur b (Service d cs) = (Service d cs, [], Some RuntimeWarning)"
  by simp

theorem double_start_unaffected_witness:
  "is_started (fst (start 0 True (leaf ''S'' default_hooks)))
   \<and> start 0 True (fst (start 0 True (leaf ''S'' default_hooks)))
       = (fst (start 0 True (leaf ''S'' default_hooks)), [], Some RuntimeWarning)"
proof -
  let ?d = "(new_service ''S'' default_hooks)\<lparr>stopped_event := False, ready_event := True,
              started := True\<rparr>"
  have s: "fst (start 0 True (leaf ''S'' default_hooks)) = Service ?d []"
    by (simp add: leaf_def new_service_def default_hooks_def readiness_def NOT_READY_def Let_def)
  have "started ?d" by simp
  from double_start_unaffected [OF this, of 0 True "[]"] s show ?thesis by simp
qed

section \<open>The cleanup phase of stop\<close>

lemma took_append: "took (a @ b) = took a + took b"
  by (induction a rule: took.induct) simp_all

lemma stop_try_block:
  "\<exists>cs1 body r.
     (case pre_stop (hooks d) of
        Some e \<Rightarrow> (cs, [Hook n ''pre_stop''], Some e)
      | None \<Rightarrow>
         (case stop_children cur n (rev cs) of
            (rcs, trc, Some e) \<Rightarrow> (rev rcs, Hook n ''pre_stop'' # trc, Some e)
          | (rcs, trc, None) \<Rightarrow>
              (rev rcs, Hook n ''pre_stop'' # trc @ [Hook n ''do_stop''], do_stop (hooks d))))
     = (cs1, Hook n ''pre_stop'' # body, r)"
  by (auto split: option.split prod.split)

text \<open>
  C2 (as amended). When \<^verbatim>\<open>stop\<close> is not called from one of the service's own greenlets,
  then whatever \<^verbatim>\<open>pre_stop\<close>, the children's \<^verbatim>\<open>stop\<close> and \<^verbatim>\<open>do_stop\<close> do (return or
  raise; \<^verbatim>\<open>body\<close> is what they add to the trace), the trace of \<^verbatim>\<open>stop\<close> ends with the
  cleanup phase: the join of the task group with the given timeout (\<^verbatim>\<open>stop_timeout\<close> when
  none is given), then the kill with the grace period 1, then the readiness gate is
  cleared, the stop signal set and \<^verbatim>\<open>post_stop\<close> run; the flags of the service afterwards
  say so. The group that is joined and killed is the group \<^verbatim>\<open>g\<close> as it is when the cleanup
  begins, after the time the children's \<^verbatim>\<open>stop\<close> took; join and kill are not called when
  no task is left in it by then.
\<close>

theorem stop_always_cleans_up:
  assumes "\<not> in_group cur d"
  shows "\<exists>body cs'.
           (let t = (case timeout of None \<Rightarrow> stop_timeout d | Some t \<Rightarrow> t);
                g = advance (took body) (greenlets d)
            in fst (snd (stop cur timeout (Service d cs))) =
                 StartedSet (name d) False # Hook (name d) ''pre_stop'' # body
                   @ (if g \<noteq> []
                      then [Join (name d) t (join_took t g),
                            Kill (name d) 1 (kill_took (join_group t g))]
                      else [])
                   @ [ReadyClear (name d), StoppedSet (name d), Hook (name d) ''post_stop'']
             \<and> fst (stop cur timeout (Service d cs)) =
                 Service (d\<lparr>started := False,
                            greenlets := (if g \<noteq> [] then kill_group (join_group t g) else g),
                            ready_event := False, stopped_event := True\<rparr>) cs')"
proof -
  from stop_try_block [where d=d and cs=cs and n="name d" and cur=cur]
  obtain cs1 body r where
    b: "(case pre_stop (hooks d) of
        Some e \<Rightarrow> (cs, [Hook (name d) ''pre_stop''], Some e)
      | None \<Rightarrow>
         (case stop_children cur (name d) (rev cs) of
            (rcs, trc, Some e) \<Rightarrow> (rev rcs, Hook (name d) ''pre_stop'' # trc, Some e)
          | (rcs, trc, None) \<Rightarrow>
              (rev rcs, Hook (name d) ''pre_stop'' # trc @ [Hook (name d) ''do_stop''],
               do_stop (hooks d))))
     = (cs1, Hook (name d) ''pre_stop'' # body, r)"
    by blast
  show ?thesis
    apply (rule exI [of _ body])
    using assms by (cases timeout) (simp_all add: Let_def b stop_cleanup_def)
qed

text \<open>
  Two runs: a \<^verbatim>\<open>stop(3)\<close> whose \<^verbatim>\<open>pre_stop\<close> raises, on a service with one task that needs
  5 units, and a \<^verbatim>\<open>stop()\<close> of a parent whose task needs 2 units while the \<^verbatim>\<open>stop\<close> of its
  child blocks for 2 units (a join of 1 and a kill of 1 on a task that ignores the kill):
  the parent's group is empty when its cleanup begins.
\<close>

theorem stop_always_cleans_up_witness:
  "\<not> in_group 0 ((new_service ''S'' (default_hooks\<lparr>pre_stop := Some E1\<rparr>))
                   \<lparr>started := True, ready_event := True, greenlets := [idle_task 7]\<rparr>)
   \<and> stop 0 (Some 3) (busy ''S'' (default_hooks\<lparr>pre_stop := Some E1\<rparr>) 7) =
       (Service ((new_service ''S'' (default_hooks\<lparr>pre_stop := Some E1\<rparr>))
                   \<lparr>started := False, ready_event := False, stopped_event := True\<rparr>) [],
        [StartedSet ''S'' False, Hook ''S'' ''pre_stop'', Join ''S'' 3 3, Kill ''S'' 1 0,
         ReadyClear ''S'', StoppedSet ''S'', Hook ''S'' ''post_stop''],
        Some E1)
   \<and> fst (snd (stop 0 None outlived)) =
     [StartedSet ''P'' False, Hook ''P'' ''pre_stop'', ChildStop ''P'' ''C'',
      StartedSet ''C'' False, Hook ''C'' ''pre_stop'', Hook ''C'' ''do_stop'',
      Join ''C'' 1 1, Kill ''C'' 1 1, ReadyClear ''C'', StoppedSet ''C'', Hook ''C'' ''post_stop'',
      Hook ''P'' ''do_stop'', ReadyClear ''P'', StoppedSet ''P'', Hook ''P'' ''post_stop'']"
proof -
  let ?d = "(new_service ''S'' (default_hooks\<lparr>pre_stop := Some E1\<rparr>))
                   \<lparr>started := True, ready_event := True, greenlets := [idle_task 7]\<rparr>"
  have h: "\<not> in_group 0 ?d" by (simp add: in_group_def idle_task_def new_service_def)
  from stop_always_cleans_up [OF h, of "Some 3" "[]"]
  obtain body cs' where
    tr: "fst (snd (stop 0 (Some 3) (Service ?d []))) =
       StartedSet (name ?d) False # Hook (name ?d) ''pre_stop'' # body
         @ (if advance (took body) (greenlets ?d) \<noteq> []
            then [Join (name ?d) 3 (join_took 3 (advance (took body) (greenlets ?d))),
                  Kill (name ?d) 1 (kill_took (join_group 3 (advance (took body) (greenlets ?d))))]
            else [])
         @ [ReadyClear (name ?d), StoppedSet (name ?d), Hook (name ?d) ''post_stop'']"
    unfolding Let_def option.case by blast
  have res: "stop 0 (Some 3) (Service ?d []) =
       (Service ((new_service ''S'' (default_hooks\<lparr>pre_stop := Some E1\<rparr>))
                   \<lparr>started := False, ready_event := False, stopped_event := True\<rparr>) [],
        [StartedSet ''S'' False, Hook ''S'' ''pre_stop'', Join ''S'' 3 3, Kill ''S'' 1 0,
         ReadyClear ''S'', StoppedSet ''S'', Hook ''S'' ''post_stop''],
        Some E1)"
    by (simp add: in_group_def idle_task_def new_service_def default_hooks_def
          stop_cleanup_def Let_def advance_def join_group_def join_took_def kill_group_def
          kill_took_def finish_time_def)
  have late: "fst (snd (stop 0 None outlived)) =
     [StartedSet ''P'' False, Hook ''P'' ''pre_stop'', ChildStop ''P'' ''C'',
      StartedSet ''C'' False, Hook ''C'' ''pre_stop'', Hook ''C'' ''do_stop'',
      Join ''C'' 1 1, Kill ''C'' 1 1, ReadyClear ''C'', StoppedSet ''C'', Hook ''C'' ''post_stop'',
      Hook ''P'' ''do_stop'', ReadyClear ''P'', StoppedSet ''P'', Hook ''P'' ''post_stop'']"
    by (simp add: outlived_def slow_task_def in_group_def new_service_def default_hooks_def
          stop_cleanup_def Let_def advance_def join_group_def join_took_def kill_group_def
          kill_took_def finish_time_def)
  from h res tr late show ?thesis unfolding busy_def by blast
qed

text \<open>
  C2 as stated fails for a call made from one of the service's own greenlets (line 219):
  \<^verbatim>\<open>stop(timeout=5)\<close> only spawns a greenlet that will run \<^verbatim>\<open>stop\<close>; it joins and kills
  nothing, clears no gate and sets no signal, and the service is returned as it was.
\<close>

theorem stop_from_own_task_counterexample:
  "stop 7 (Some 5) (busy ''S'' default_hooks 7) = (busy ''S'' default_hooks 7, [SpawnStop ''S''], None)
   \<and> is_started (busy ''S'' default_hooks 7)
   \<and> \<not> stopped (busy ''S'' default_hooks 7)"
  by (simp add: busy_def in_group_def idle_task_def new_service_def)


section \<open>A fault during start\<close>










section \<open>Children are started first\<close>

lemma abort_raises: "snd (snd (abort cur s tr e)) \<noteq> None"
  unfolding abort_def by (simp split: prod.split)

lemma start_success_started:
  assumes "snd (snd (start cur b s)) = None"
  shows "is_started (fst (start cur b s))"
proof (cases s)
  case (BaseServer n st sf pf)
  with assms show ?thesis by (cases sf) simp_all
next
  case (Service d cs)
  show ?thesis
  proof (cases "started d")
    case True
    with assms Service show ?thesis by simp
  next
    case False
    with assms Service show ?thesis
      by (auto simp: Let_def abort_raises split: option.splits prod.splits sum.splits)
  qed
qed

lemma start_children_ok:
  assumes "snd (snd (start_children cur b p cs)) = None"
  shows "start_children cur b p cs =
           (map (child_started cur b) cs, concat (map (child_start_trace cur b p) cs), None)
         \<and> list_all is_started (map (child_started cur b) cs)"
  using assms
proof (induction cs)
  case Nil
  then show ?case by simp
next
  case (Cons c cs)
  show ?case
  proof (cases "is_started c")
    case True
    with Cons show ?thesis
      by (auto simp: child_started_def child_start_trace_def split: prod.splits)
  next
    case False
    obtain c' tr r where sc: "start cur b c = (c', tr, r)" by (cases "start cur b c") auto
    with False Cons.prems have r: "r = None" by (cases r) auto
    with sc have "is_started c'" using start_success_started [of cur b c] by simp
    with False sc r Cons show ?thesis
      by (auto simp: child_started_def child_start_trace_def split: prod.splits)
  qed
qed


text \<open>
  C5. When \<^verbatim>\<open>start\<close> of a service returns normally, its loop over the children did, in
  list order, what the specification says for each child (\<^verbatim>\<open>child_start_trace\<close>,
  \<^verbatim>\<open>child_started\<close>: a child that is not started is started with the same flag, a
  \<^verbatim>\<open>BaseServer\<close> directly); every child is started when the loop ends, and the children
  are the same at the end of \<^verbatim>\<open>start\<close>; in the trace the children's part comes after
  \<^verbatim>\<open>pre_start\<close> and before the node's own \<^verbatim>\<open>do_start\<close>.
\<close>

theorem start_children_before_do_start:
  assumes "start cur b (Service d cs) = (s', tr, None)"
  shows "\<exists>d' after.
           s' = Service d' (map (child_started cur b) cs)
         \<and> list_all is_started (map (child_started cur b) cs)
         \<and> start_children cur b (name d) cs =
             (map (child_started cur b) cs,
              concat (map (child_start_trace cur b (name d)) cs), None)
         \<and> tr = [StoppedClear (name d), ReadyClear (name d), Hook (name d) ''pre_start'']
                  @ concat (map (child_start_trace cur b (name d)) cs)
                  @ Hook (name d) ''do_start'' # after"
proof -
  from assms have n: "snd (snd (start cur b (Service d cs))) = None" by simp
  have ns: "\<not> started d" using n by (cases "started d") simp_all
  have pre: "pre_start (hooks d) = None"
    using n ns by (cases "pre_start (hooks d)") (simp_all add: Let_def abort_raises)
  obtain cs1 trc rc where sc: "start_children cur b (name d) cs = (cs1, trc, rc)"
    by (cases "start_children cur b (name d) cs") auto
  have rc: "rc = None"
    using n ns pre sc by (cases rc) (simp_all add: Let_def abort_raises)
  obtain v where ds: "do_start (hooks d) = Inr v"
    using n ns pre sc rc by (cases "do_start (hooks d)") (simp_all add: Let_def abort_raises)
  have post: "post_start (hooks d) = None"
    using n ns pre sc rc ds by (cases "post_start (hooks d)") (simp_all add: Let_def abort_raises)
  from sc rc have "snd (snd (start_children cur b (name d) cs)) = None" by simp
  from start_children_ok [OF this] sc rc
  have ok: "cs1 = map (child_started cur b) cs"
    "trc = concat (map (child_start_trace cur b (name d)) cs)"
    "list_all is_started (map (child_started cur b) cs)"
    by simp_all
  from assms ns pre sc rc ds post
  have "s' = Service ((fst (readiness b v (d\<lparr>stopped_event := False, ready_event := False\<rparr>)))
                        \<lparr>started := True\<rparr>) cs1"
    and "tr = [StoppedClear (name d), ReadyClear (name d), Hook (name d) ''pre_start''] @ trc
              @ Hook (name d) ''do_start''
                # (snd (readiness b v (d\<lparr>stopped_event := False, ready_event := False\<rparr>))
                   @ [StartedSet (name d) True, Hook (name d) ''post_start''])"
    by (simp_all add: Let_def)
  with ok sc rc show ?thesis by blast
qed

theorem start_children_before_do_start_witness:
  "snd (snd (start 0 True family)) = None
   \<and> fst (snd (start 0 True family)) =
       [StoppedClear ''P'', ReadyClear ''P'', Hook ''P'' ''pre_start'',
        ChildStart ''P'' ''A'' True, StoppedClear ''A'', ReadyClear ''A'',
        Hook ''A'' ''pre_start'', Hook ''A'' ''do_start'', ReadySet ''A'',
        StartedSet ''A'' True, Hook ''A'' ''post_start'',
        ChildStart ''P'' ''B'' True, ForeignStart ''B'',
        Hook ''P'' ''do_start'', ReadySet ''P'', StartedSet ''P'' True,
        Hook ''P'' ''post_start'']
   \<and> list_all is_started (children (fst (start 0 True family)))"
proof -
  have res: "start 0 True family =
      (Service ((new_service ''P'' default_hooks)
                  \<lparr>stopped_event := False, ready_event := True, started := True\<rparr>)
         [Service ((new_service ''A'' default_hooks)
                     \<lparr>stopped_event := False, ready_event := True, started := True\<rparr>) [],
          BaseServer ''B'' True None None,
          running ''C'' default_hooks],
       [StoppedClear ''P'', ReadyClear ''P'', Hook ''P'' ''pre_start'',
        ChildStart ''P'' ''A'' True, StoppedClear ''A'', ReadyClear ''A'',
        Hook ''A'' ''pre_start'', Hook ''A'' ''do_start'', ReadySet ''A'',
        StartedSet ''A'' True, Hook ''A'' ''post_start'',
        ChildStart ''P'' ''B'' True, ForeignStart ''B'',
        Hook ''P'' ''do_start'', ReadySet ''P'', StartedSet ''P'' True,
        Hook ''P'' ''post_start''],
       None)"
    by (simp add: family_def leaf_def running_def new_service_def default_hooks_def
          readiness_def NOT_READY_def Let_def)
  from start_children_before_do_start [OF res [unfolded family_def]]
  have "list_all is_started (map (child_started 0 True)
          [leaf ''A'' default_hooks, BaseServer ''B'' False None None,
           running ''C'' default_hooks])"
    by blast
  then show ?thesis by (simp add: res running_def new_service_def)
qed


section \<open>The sentinel and True\<close>

text \<open>
  C10. \<^verbatim>\<open>NOT_READY\<close> is the integer 1 and line 188 compares with \<^verbatim>\<open>==\<close>, so a
  \<^verbatim>\<open>do_start\<close> that returns \<^verbatim>\<open>True\<close> is taken for the sentinel: on the path where
  \<^verbatim>\<open>start\<close> succeeds, the readiness gate is not set by \<^verbatim>\<open>start\<close> (no \<^verbatim>\<open>ReadySet\<close>);
  with \<^verbatim>\<open>block_until_ready\<close> the caller waits on the gate for \<^verbatim>\<open>ready_timeout\<close>, and the
  gate is set afterwards only if \<^verbatim>\<open>set_ready\<close> was called in time.
\<close>

theorem true_is_not_ready:
  assumes "\<not> started d" and "pre_start (hooks d) = None"
    and "start_children cur b (name d) cs = (cs1, trc, None)"
    and "do_start (hooks d) = Inr (PyBool True)" and "post_start (hooks d) = None"
  shows "py_eq (PyBool True) NOT_READY
       \<and> start cur b (Service d cs) =
           (Service (d\<lparr>stopped_event := False,
                       ready_event := (b \<and> (case ready_after d of None \<Rightarrow> False
                                              | Some t \<Rightarrow> t \<le> ready_timeout d)),
                       started := True\<rparr>) cs1,
            [StoppedClear (name d), ReadyClear (name d), Hook (name d) ''pre_start''] @ trc
              @ [Hook (name d) ''do_start'']
              @ (if b then [Wait (name d) (ready_timeout d)] else [])
              @ [StartedSet (name d) True, Hook (name d) ''post_start''],
            None)"
  using assms by (cases b; cases "ready_after d") (simp_all add: Let_def readiness_def NOT_READY_def)

theorem true_is_not_ready_witness:
  "\<not> started (new_service ''S'' (default_hooks\<lparr>do_start := Inr (PyBool True)\<rparr>))
   \<and> fst (snd (start 0 True (leaf ''S'' (default_hooks\<lparr>do_start := Inr (PyBool True)\<rparr>)))) =
       [StoppedClear ''S'', ReadyClear ''S'', Hook ''S'' ''pre_start'', Hook ''S'' ''do_start'',
        Wait ''S'' 2, StartedSet ''S'' True, Hook ''S'' ''post_start'']
   \<and> \<not> ready (fst (start 0 True (leaf ''S'' (default_hooks\<lparr>do_start := Inr (PyBool True)\<rparr>))))"
proof -
  let ?d = "new_service ''S'' (default_hooks\<lparr>do_start := Inr (PyBool True)\<rparr>)"
  have h1: "\<not> started ?d" by (simp add: new_service_def)
  have h2: "pre_start (hooks ?d) = None" by (simp add: new_service_def default_hooks_def)
  have h3: "start_children 0 True (name ?d) [] = ([], [], None)" by simp
  have h4: "do_start (hooks ?d) = Inr (PyBool True)" by (simp add: new_service_def)
  have h5: "post_start (hooks ?d) = None" by (simp add: new_service_def default_hooks_def)
  from true_is_not_ready [OF h1 h2 h3 h4 h5]
  have res: "start 0 True (Service ?d []) =
           (Service (?d\<lparr>stopped_event := False,
                       ready_event := (True \<and> (case ready_after ?d of None \<Rightarrow> False
                                              | Some t \<Rightarrow> t \<le> ready_timeout ?d)),
                       started := True\<rparr>) [],
            [StoppedClear (name ?d), ReadyClear (name ?d), Hook (name ?d) ''pre_start''] @ []
              @ [Hook (name ?d) ''do_start'']
              @ (if True then [Wait (name ?d) (ready_timeout ?d)] else [])
              @ [StartedSet (name ?d) True, Hook (name ?d) ''post_start''],
            None)"
    by blast
  show ?thesis unfolding leaf_def res by (simp add: new_service_def)
qed


section \<open>Children are stopped in reverse order\<close>















section \<open>The readiness gate and the started flag\<close>

lemma gate_closed_elapse:
  "gate_closed (elapse dt s) = gate_closed s"
  by (induction s) (simp_all add: list_all_iff)

lemma stop_cleanup_flags:
  "started (fst (stop_cleanup t d)) = started d"
  "ready_event (fst (stop_cleanup t d)) = False"
  "stopped_event (fst (stop_cleanup t d)) = True"
  by (simp_all add: stop_cleanup_def Let_def)

lemma stop_gate_closed:
  "gate_closed s \<Longrightarrow> gate_closed (fst (stop cur t s))"
  "list_all gate_closed cs \<Longrightarrow> list_all gate_closed (fst (stop_children cur p cs))"
proof (induction cur t s and cur p cs rule: stop_stop_children.induct)
  case (1 cur timeout n st sf pf)
  then show ?case by simp
next
  case (2 cur timeout d cs)
  show ?case
  proof (cases "in_group cur d")
    case True
    with 2 show ?thesis by simp
  next
    case False
    note run = False
    show ?thesis
    proof (cases "pre_stop (hooks d)")
      case (Some e)
      with run 2 show ?thesis
        by (simp add: Let_def stop_cleanup_flags list_all_iff gate_closed_elapse)
    next
      case None
      from "2.prems" have "list_all gate_closed (rev cs)" by simp
      with "2.IH" run None
      have "list_all gate_closed (fst (stop_children cur (name d) (rev cs)))" by simp
      with run None show ?thesis
        by (auto simp: Let_def stop_cleanup_flags list_all_iff gate_closed_elapse
              split: prod.split option.split)
    qed
  qed
next
  case (3 cur p)
  then show ?case by simp
next
  case (4 cur p c cs)
  show ?case
  proof (cases "is_started c")
    case False
    with 4 show ?thesis by (auto simp: gate_closed_elapse split: prod.splits)
  next
    case True
    obtain c' tr r where sc: "stop cur None c = (c', tr, r)" by (cases "stop cur None c") auto
    from "4.prems" have gc: "gate_closed c" and gcs: "list_all gate_closed cs" by simp_all
    from "4.IH"(1) [OF True gc] sc have g': "gate_closed c'" by simp
    show ?thesis
    proof (cases r)
      case (Some e)
      with True sc g' gcs show ?thesis by (simp add: list_all_iff gate_closed_elapse)
    next
      case None
      from gcs have "list_all gate_closed (map (elapse (took tr)) cs)"
        by (simp add: list_all_iff gate_closed_elapse)
      with "4.IH"(2) [OF True sc [symmetric] _ None]
      have "list_all gate_closed (fst (stop_children cur p (map (elapse (took tr)) cs)))"
        by simp
      with True sc None g' show ?thesis
        by (simp add: gate_closed_elapse case_prod_beta)
    qed
  qed
qed

lemma abort_gate_closed:
  "gate_closed s \<Longrightarrow> gate_closed (fst (abort cur s tr e))"
  using stop_gate_closed(1) [of s cur None] by (auto simp: abort_def split: prod.split)


lemma start_gate_closed:
  "gate_closed s \<Longrightarrow> gate_closed (fst (start cur b s))"
  "list_all gate_closed cs \<Longrightarrow> list_all gate_closed (fst (start_children cur b p cs))"
proof (induction cur b s and cur b p cs rule: start_start_children.induct)
  case (1 cur b n st sf pf)
  then show ?case by (cases sf) simp_all
next
  case (2 cur b d cs)
  show ?case
  proof (cases "started d")
    case True
    with 2 show ?thesis by simp
  next
    case False
    note ns = False
    from "2.prems" have kids: "list_all gate_closed cs" by simp
    show ?thesis
    proof (cases "pre_start (hooks d)")
      case (Some e)
      have "gate_closed (Service (d\<lparr>stopped_event := False, ready_event := False\<rparr>) cs)"
        using kids by simp
      from abort_gate_closed [OF this] ns Some show ?thesis by (simp add: Let_def)
    next
      case None
      obtain cs1 trc rc where sc: "start_children cur b (name d) cs = (cs1, trc, rc)"
        by (cases "start_children cur b (name d) cs") auto
      from "2.IH" ns None kids sc have k1: "list_all gate_closed cs1" by simp
      then have g1: "gate_closed (Service (d\<lparr>stopped_event := False, ready_event := False\<rparr>) cs1)"
        by simp
      have g3: "gate_closed (Service (x\<lparr>started := True\<rparr>) cs1)" for x
        using k1 by simp
      show ?thesis
      proof (cases rc)
        case (Some e)
        with abort_gate_closed [OF g1] ns None sc show ?thesis by (simp add: Let_def)
      next
        case rcN: None
        show ?thesis
        proof (cases "do_start (hooks d)")
          case (Inl e)
          with abort_gate_closed [OF g1] ns None sc rcN show ?thesis by (simp add: Let_def)
        next
          case (Inr v)
          show ?thesis
          proof (cases "post_start (hooks d)")
            case pN: None
            with ns None sc rcN Inr k1 show ?thesis by (simp add: Let_def)
          next
            case (Some e)
            with abort_gate_closed [OF g3] ns None sc rcN Inr show ?thesis
              by (simp add: Let_def)
          qed
        qed
      qed
    qed
  qed
next
  case (3 cur b p)
  then show ?case by simp
next
  case (4 cur b p c cs)
  then show ?case by (auto split: prod.splits option.splits)
qed

lemma serve_forever_gate_closed:
  "gate_closed s \<Longrightarrow> gate_closed (fst (serve_forever cur t cb env s))"
  by (simp add: serve_forever_def Let_def case_prod_beta start_gate_closed(1) stop_gate_closed(1)
        split: option.split wait_env.split)


lemma set_ready_gate_closed:
  "gate_closed s \<Longrightarrow> is_started s \<Longrightarrow> gate_closed (set_ready s)"
  by (cases s) simp_all

lemma apply_op_gate_closed:
  "gate_closed s \<Longrightarrow> x \<noteq> OpSetReady \<or> is_started s \<Longrightarrow> gate_closed (apply_op x s)"
  by (cases x)
     (simp_all add: start_gate_closed(1) stop_gate_closed(1) serve_forever_gate_closed
        set_ready_gate_closed)

text \<open>
  C9 (as amended). Take a tree in which the readiness gate of every node is false when its
  \<^verbatim>\<open>started\<close> flag is false, and a sequence of \<^verbatim>\<open>start\<close>, \<^verbatim>\<open>stop\<close>, \<^verbatim>\<open>serve_forever\<close> and
  \<^verbatim>\<open>set_ready\<close> calls on its root in which every \<^verbatim>\<open>set_ready\<close> is made while the root is
  started. Then in every state at an operation boundary the gate of every node is false
  when its flag is false.
\<close>

theorem gate_closed_at_boundaries:
  assumes "gate_closed s" and "ready_when_started s ops"
  shows "list_all gate_closed (run_ops s ops)"
  using assms
proof (induction ops arbitrary: s)
  case Nil
  then show ?case by simp
next
  case (Cons x xs)
  from Cons.prems have "x \<noteq> OpSetReady \<or> is_started s" and "ready_when_started (apply_op x s) xs"
    by simp_all
  with Cons.prems(1) Cons.IH [of "apply_op x s"] show ?case
    by (simp add: apply_op_gate_closed)
qed

theorem gate_closed_at_boundaries_witness:
  "gate_closed (leaf ''S'' default_hooks)
   \<and> ready_when_started (leaf ''S'' default_hooks) session
   \<and> list_all gate_closed (run_ops (leaf ''S'' default_hooks) session)
   \<and> map (\<lambda>s. (is_started s, ready s)) (run_ops (leaf ''S'' default_hooks) session) =
       [(False, False), (True, True), (True, True), (False, False), (False, False),
        (True, True)]"
proof -
  have h1: "gate_closed (leaf ''S'' default_hooks)" by (simp add: leaf_def new_service_def)
  have h2: "ready_when_started (leaf ''S'' default_hooks) session"
    by (simp add: session_def leaf_def new_service_def default_hooks_def readiness_def
          NOT_READY_def Let_def in_group_def stop_cleanup_def serve_forever_def abort_def advance_def)
  have h3: "map (\<lambda>s. (is_started s, ready s)) (run_ops (leaf ''S'' default_hooks) session) =
       [(False, False), (True, True), (True, True), (False, False), (False, False),
        (True, True)]"
    by (simp add: session_def leaf_def new_service_def default_hooks_def readiness_def
          NOT_READY_def Let_def in_group_def stop_cleanup_def serve_forever_def abort_def advance_def)
  from gate_closed_at_boundaries [OF h1 h2] h1 h2 h3 show ?thesis by blast
qed

text \<open>
  C9 as stated fails: \<^verbatim>\<open>set_ready\<close> sets the event whatever the flag is, so on a service
  that was never started the gate is true while the flag is false.
\<close>

theorem set_ready_unstarted_counterexample:
  "run_ops (leaf ''S'' default_hooks) [OpSetReady] =
     [leaf ''S'' default_hooks,
      Service ((new_service ''S'' default_hooks)\<lparr>ready_event := True\<rparr>) []]
   \<and> ready (last (run_ops (leaf ''S'' default_hooks) [OpSetReady]))
   \<and> \<not> is_started (last (run_ops (leaf ''S'' default_hooks) [OpSetReady]))"
  by (simp add: leaf_def new_service_def)


section \<open>The error interceptor\<close>

lemma call_handler_quiet:
  "hraises h = None \<Longrightarrow> call_handler (Suc n) tbl h e g = Some ([Invoke (hname h) e g], Inr PyNone)"
  by simp

lemma handle_all_calm:
  "calm rest e \<Longrightarrow> handle_all (Suc n) tbl rest e = Some (invocations rest e, None)"
  by (induction rest) (auto simp: calm_def invocations_def)









section \<open>One invocation for every matching registration\<close>




section \<open>The table a task is matched against\<close>

lemma handlers_of_spawn:
  "handlers_of (spawn t s) = handlers_of s" "handlers_of (spawn_later sec t s) = handlers_of s"
  by (cases s; simp)+

text \<open>
  C8 (as amended). A task of the service runs and its function raises \<^verbatim>\<open>e\<close>, leaving the
  service \<^verbatim>\<open>s'\<close>. Whether the fault is intercepted is decided by the kinds registered in
  \<^verbatim>\<open>s\<close>, the service when the function was called: if none of them matches, the fault is
  raised, whatever was registered meanwhile; if one matches, the handlers are those of the
  table of \<^verbatim>\<open>s'\<close>, as it is when the fault is caught. \<^verbatim>\<open>spawn\<close> and \<^verbatim>\<open>spawn_later\<close> read
  and change nothing of the table, and a \<^verbatim>\<open>catch\<close> after the spawn is in the table the
  task meets.
\<close>

theorem interceptor_reads_table_at_call:
  assumes "run_func (tid t) (registers (tfunc t)) (outcome (tfunc t)) s = (s', Inl e)"
  shows "(\<not> list_ex (isinstance e) (map fst (handlers_of s)) \<longrightarrow>
            run_task n t s = Some (discard (tid t) s', [Run (fname (tfunc t))], Inl e))
       \<and> (list_ex (isinstance e) (map fst (handlers_of s)) \<longrightarrow>
            run_task n t s =
              (case handle_all n (handlers_of s') (handlers_of s') e of
                 None \<Rightarrow> None
               | Some (tr, None) \<Rightarrow>
                   Some (discard (tid t) s', Run (fname (tfunc t)) # tr, Inr (PyFault e))
               | Some (tr, Some e') \<Rightarrow>
                   Some (discard (tid t) s', Run (fname (tfunc t)) # tr, Inl e')))
       \<and> (list_ex (isinstance e) (map fst (handlers_of s)) \<and> calm (handlers_of s') e \<longrightarrow>
            run_task (Suc n) t s =
              Some (discard (tid t) s',
                    Run (fname (tfunc t)) # invocations (handlers_of s') e, Inr (PyFault e)))
       \<and> handlers_of (spawn t s) = handlers_of s
       \<and> handlers_of (spawn_later sec t s) = handlers_of s
       \<and> handlers_of (fst (catch c k h (spawn t (Service d cs)))) =
           AList.update k (h, c) (error_handlers d)"
proof -
  have 1: "\<not> list_ex (isinstance e) (map fst (handlers_of s)) \<longrightarrow>
            run_task n t s = Some (discard (tid t) s', [Run (fname (tfunc t))], Inl e)"
    using assms by (simp add: run_task_def wrapped_f_def Let_def)
  have 2: "list_ex (isinstance e) (map fst (handlers_of s)) \<longrightarrow>
            run_task n t s =
              (case handle_all n (handlers_of s') (handlers_of s') e of
                 None \<Rightarrow> None
               | Some (tr, None) \<Rightarrow>
                   Some (discard (tid t) s', Run (fname (tfunc t)) # tr, Inr (PyFault e))
               | Some (tr, Some e') \<Rightarrow>
                   Some (discard (tid t) s', Run (fname (tfunc t)) # tr, Inl e'))"
    using assms
    by (simp add: run_task_def wrapped_f_def Let_def del: handle_all.simps
          split: option.split prod.split)
  have 3: "list_ex (isinstance e) (map fst (handlers_of s)) \<and> calm (handlers_of s') e \<longrightarrow>
            run_task (Suc n) t s =
              Some (discard (tid t) s',
                    Run (fname (tfunc t)) # invocations (handlers_of s') e, Inr (PyFault e))"
    using assms
    by (simp add: run_task_def wrapped_f_def Let_def handle_all_calm del: handle_all.simps)
  have 4: "handlers_of (fst (catch c k h (spawn t (Service d cs)))) =
           AList.update k (h, c) (error_handlers d)"
    by (simp split: prod.split)
  from 1 2 3 4 handlers_of_spawn(1) [of t s] handlers_of_spawn(2) [of sec t s] show ?thesis
    by blast
qed

text \<open>
  A handler registered after the spawn and before the task runs intercepts the fault;
  without it the fault is raised.
\<close>

theorem interceptor_reads_table_at_call_witness:
  "run_task 1 (job 5 (raising ValueErr))
     (fst (catch 0 ''ValueError'' quiet (spawn (job 5 (raising ValueErr)) (leaf ''S'' default_hooks))))
   = Some (Service ((new_service ''S'' default_hooks)
                      \<lparr>error_handlers := [(''ValueError'', quiet, 0)]\<rparr>) [],
           [Run ''f'', Invoke ''quiet'' ValueErr 0], Inr (PyFault ValueErr))
   \<and> run_task 1 (job 5 (raising ValueErr)) (spawn (job 5 (raising ValueErr)) (leaf ''S'' default_hooks))
   = Some (leaf ''S'' default_hooks, [Run ''f''], Inl ValueErr)"
proof -
  let ?t = "job 5 (raising ValueErr)"
  let ?s1 = "spawn ?t (leaf ''S'' default_hooks)"
  let ?s2 = "fst (catch 0 ''ValueError'' quiet ?s1)"
  have s1: "?s1 = Service ((new_service ''S'' default_hooks)\<lparr>greenlets := [?t]\<rparr>) []"
    by (simp add: leaf_def new_service_def job_def)
  have s2: "?s2 = Service ((new_service ''S'' default_hooks)
                      \<lparr>greenlets := [?t], error_handlers := [(''ValueError'', quiet, 0)]\<rparr>) []"
    by (simp add: leaf_def new_service_def job_def)
  have r2: "run_func (tid ?t) (registers (tfunc ?t)) (outcome (tfunc ?t)) ?s2 = (?s2, Inl ValueErr)"
    by (simp add: job_def raising_def)
  have r1: "run_func (tid ?t) (registers (tfunc ?t)) (outcome (tfunc ?t)) ?s1 = (?s1, Inl ValueErr)"
    by (simp add: job_def raising_def)
  have m2: "list_ex (isinstance ValueErr) (map fst (handlers_of ?s2))"
    unfolding s2 by (simp add: isinstance_def ValueErr_def)
  have c2: "calm (handlers_of ?s2) ValueErr"
    unfolding s2 by (simp add: calm_def quiet_def)
  have i2: "invocations (handlers_of ?s2) ValueErr = [Invoke ''quiet'' ValueErr 0]"
    unfolding s2 by (simp add: invocations_def isinstance_def ValueErr_def quiet_def)
  have m1: "\<not> list_ex (isinstance ValueErr) (map fst (handlers_of ?s1))"
    unfolding s1 by (simp add: new_service_def)
  have d2: "discard (tid ?t) ?s2 = Service ((new_service ''S'' default_hooks)
                      \<lparr>error_handlers := [(''ValueError'', quiet, 0)]\<rparr>) []"
    unfolding s2 by (simp add: job_def new_service_def)
  have d1: "discard (tid ?t) ?s1 = leaf ''S'' default_hooks"
    unfolding s1 by (simp add: job_def new_service_def leaf_def)
  have a: "run_task 1 ?t ?s2 = Some (discard (tid ?t) ?s2,
              Run (fname (tfunc ?t)) # invocations (handlers_of ?s2) ValueErr,
              Inr (PyFault ValueErr))"
    using interceptor_reads_table_at_call [OF r2, of 0] m2 c2 by simp
  have b: "run_task 1 ?t ?s1 = Some (discard (tid ?t) ?s1, [Run (fname (tfunc ?t))], Inl ValueErr)"
    using interceptor_reads_table_at_call [OF r1, of 1] m1 by blast
  from a b show ?thesis
    unfolding d2 d1 i2 by (simp add: job_def raising_def)
qed

text \<open>
  C8 as stated fails: line 134 builds the tuple of kinds when the wrapped function is
  called, before the function runs. A handler for \<^verbatim>\<open>ValueError\<close> that the function itself
  registers before it raises is in the table when the fault occurs, and the fault is
  raised all the same.
\<close>

theorem late_catch_counterexample:
  "run_task 1 (job 5 late) (spawn (job 5 late) (leaf ''S'' default_hooks))
   = Some (Service ((new_service ''S'' default_hooks)
                      \<lparr>error_handlers := [(''ValueError'', quiet, 5)]\<rparr>) [],
           [Run ''f''], Inl ValueErr)
   \<and> isinstance ValueErr ''ValueError''"
  by (simp add: run_task_def wrapped_f_def Let_def job_def late_def leaf_def new_service_def
        isinstance_def ValueErr_def)


end
